theory Spec2Isabelle
  imports Main "HOL-Library.Word" "HOL-Library.Signed_Division"
begin

section \<open>Machine integers of the Go sources\<close>

text \<open>
  The cache sizes of \<open>ethconfig.Config\<close> (a declaration of package \<open>ethconfig\<close>, which
  \<open>eth/backend.go\<close> imports) are Go \<open>int\<close> values. On the 64-bit targets the node is
  built for, \<open>int\<close> is a 64-bit two's complement integer: addition and multiplication
  wrap around silently, comparison reads the sign bit, and \<open>/\<close> truncates towards zero.
  Unsigned 64-bit values (\<open>uint64\<close>) use the same words, read with \<open>unat\<close>.
\<close>

type_synonym go_int = "64 word"
type_synonym uint64 = "64 word"
type_synonym uint32 = "32 word"

definition go_div :: "go_int \<Rightarrow> go_int \<Rightarrow> go_int" where
  \<comment> \<open>Go's \<open>a / b\<close> on \<open>int\<close>, for a divisor other than zero: the quotient truncated
      towards zero, wrapped to 64 bits. The sources only divide by the constant 5.\<close>
  "go_div a b = word_of_int (sint a sdiv sint b)"

definition fits_int :: "int \<Rightarrow> bool" where
  \<comment> \<open>The mathematical integer is representable in a Go \<open>int\<close>.\<close>
  "fits_int x \<longleftrightarrow> - (2 ^ 63) \<le> x \<and> x < 2 ^ 63"


section \<open>eth/backend.go: configuration\<close>

text \<open>
  \<open>ethconfig.Config\<close>, restricted to the fields that \<open>New\<close> reads or writes itself.
  Fields that \<open>New\<close> only hands on to a collaborator unread (genesis, database handles,
  pool settings, gas price oracle settings) are left out. \<open>MinerGasPrice\<close> is
  \<open>config.Miner.GasPrice\<close>, a \<open>*big.Int\<close>: \<open>None\<close> is the nil pointer.
\<close>

record Config =
  SyncMode :: uint32
  MinerGasPrice :: "int option"
  NoPruning :: bool
  NoPrefetch :: bool
  TrieCleanCache :: go_int
  TrieDirtyCache :: go_int
  SnapshotCache :: go_int
  TrieTimeout :: go_int
  Preimages :: bool
  StateHistory :: uint64
  StateScheme :: string
  SkipBcVersionCheck :: bool
  NetworkId :: uint64
  EnablePreimageRecording :: bool
  VMTrace :: string
  VMTraceJsonConfig :: string
  BlobPoolDatadir :: string
  TxPoolJournal :: string

text \<open>
  \<open>core.CacheConfig\<close> as \<open>New\<close> fills it in. The last three fields are called
  \<open>Preimages\<close>, \<open>StateHistory\<close> and \<open>StateScheme\<close> in the source; they carry the
  prefix \<open>Cache\<close> here because the configuration record already owns those names.
\<close>

record CacheConfig =
  TrieCleanLimit :: go_int
  TrieCleanNoPrefetch :: bool
  TrieDirtyLimit :: go_int
  TrieDirtyDisabled :: bool
  TrieTimeLimit :: go_int
  SnapshotLimit :: go_int
  CachePreimages :: bool
  CacheStateHistory :: uint64
  CacheStateScheme :: string

definition HashScheme :: string where
  \<comment> \<open>\<open>rawdb.HashScheme\<close>\<close>
  "HashScheme = ''hash''"

definition PathScheme :: string where
  \<comment> \<open>\<open>rawdb.PathScheme\<close>\<close>
  "PathScheme = ''path''"

datatype error =
    InvalidSyncMode uint32
  | DatabaseVersionTooNew uint64 uint64
  | TracerFailed string error
  | ConfigError string
  | External string

text \<open>
  Lines 114 to 122 of \<open>New\<close>: with pruning disabled, the dirty cache allowance is handed
  to the clean cache and the snapshot cache. The second assignment reads
  \<open>config.TrieDirtyCache\<close> again after the first one has been stored.
\<close>

definition sanitize_caches :: "Config \<Rightarrow> Config" where
  "sanitize_caches config =
     (if NoPruning config \<and> 0 <s TrieDirtyCache config then
        (let config1 =
           (if 0 <s SnapshotCache config then
              (let c1 = config\<lparr>TrieCleanCache :=
                          TrieCleanCache config + go_div (TrieDirtyCache config * 3) 5\<rparr>
               in c1\<lparr>SnapshotCache := SnapshotCache c1 + go_div (TrieDirtyCache c1 * 2) 5\<rparr>)
            else config\<lparr>TrieCleanCache := TrieCleanCache config + TrieDirtyCache config\<rparr>)
         in config1\<lparr>TrieDirtyCache := 0\<rparr>)
      else config)"

text \<open>
  A configuration with the cache sizes that the node ships as defaults (in megabytes),
  used for concrete runs.
\<close>

definition example_config :: Config where
  "example_config =
     \<lparr>SyncMode = 1, MinerGasPrice = Some 1000000, NoPruning = False, NoPrefetch = False,
      TrieCleanCache = 154, TrieDirtyCache = 256, SnapshotCache = 102,
      TrieTimeout = 3600000000000, Preimages = False, StateHistory = 90000,
      StateScheme = [], SkipBcVersionCheck = False, NetworkId = 0,
      EnablePreimageRecording = False, VMTrace = [], VMTraceJsonConfig = [],
      BlobPoolDatadir = ''blobpool'', TxPoolJournal = ''transactions.rlp''\<rparr>"


section \<open>eth/backend.go: New\<close>

text \<open>
  \<open>New\<close> talks to many collaborators whose code lives in other packages (the node stack,
  \<open>rawdb\<close>, \<open>core\<close>, \<open>pruner\<close>, the pools, the handler). Every call that opens, reads,
  writes, builds, starts or registers something is an event of the trace that \<open>New\<close>
  returns, in program order, and what a call answers is read from an environment record.
  Plain accessors of the node stack, \<open>miner.SetExtra\<close> and log output are not recorded.
  The error of \<open>pruner.RecoverPruning\<close> is only logged, so the call has no answer here.
\<close>

datatype event =
    EvOpenDatabaseWithFreezer
  | EvParseStateScheme string
  | EvRecoverPruning
  | EvLoadChainConfig
  | EvCreateConsensusEngine
  | EvNewBloomIndexer
  | EvNewShutdownTracker
  | EvReadDatabaseVersion
  | EvWriteDatabaseVersion uint64
  | EvNewTracer string string
  | EvNewBlockChain CacheConfig
  | EvBloomIndexerStart
  | EvBlobPoolNew
  | EvLegacyPoolNew
  | EvTxPoolNew
  | EvNewHandler uint64
  | EvMinerNew
  | EvNewOracle
  | EvNewNetAPI
  | EvRegisterAPIs
  | EvRegisterProtocols
  | EvRegisterLifecycle
  | EvMarkStartup

record env =
  sync_mode_is_valid :: bool                           \<comment> \<open>\<open>config.SyncMode.IsValid()\<close>\<close>
  default_gas_price :: int                             \<comment> \<open>\<open>ethconfig.Defaults.Miner.GasPrice\<close>\<close>
  open_database :: "error option"                      \<comment> \<open>\<open>stack.OpenDatabaseWithFreezer\<close>\<close>
  parse_state_scheme :: "string \<Rightarrow> error + string"     \<comment> \<open>\<open>rawdb.ParseStateScheme(_, chainDb)\<close>\<close>
  load_chain_config :: "error + uint64"                \<comment> \<open>\<open>core.LoadChainConfig\<close>, its chain id\<close>
  create_consensus_engine :: "error option"            \<comment> \<open>\<open>ethconfig.CreateConsensusEngine\<close>\<close>
  read_database_version :: "uint64 option"             \<comment> \<open>\<open>rawdb.ReadDatabaseVersion(chainDb)\<close>\<close>
  BlockChainVersion :: uint64                          \<comment> \<open>\<open>core.BlockChainVersion\<close>\<close>
  new_tracer :: "string \<Rightarrow> string \<Rightarrow> error option"    \<comment> \<open>\<open>tracers.LiveDirectory.New\<close>\<close>
  new_blockchain :: "CacheConfig \<Rightarrow> error option"      \<comment> \<open>\<open>core.NewBlockChain\<close>\<close>
  resolve_path :: "string \<Rightarrow> string"                  \<comment> \<open>\<open>stack.ResolvePath\<close>\<close>
  txpool_new :: "error option"                         \<comment> \<open>\<open>txpool.New\<close>\<close>
  new_handler :: "error option"                        \<comment> \<open>\<open>newHandler\<close>\<close>

text \<open>
  The fields of the node object that \<open>New\<close> computes itself; \<open>gasPrice\<close> is the
  pointer \<open>config.Miner.GasPrice\<close>.
\<close>

record rajchain =
  networkID :: uint64
  gasPrice :: "int option"

type_synonym new_result = "(error + rajchain) \<times> Config \<times> event list"

definition sanitize_gas_price :: "env \<Rightarrow> Config \<Rightarrow> Config" where
  "sanitize_gas_price e config =
     (case MinerGasPrice config of
        None \<Rightarrow> config\<lparr>MinerGasPrice := Some (default_gas_price e)\<rparr>
      | Some p \<Rightarrow> if p \<le> 0 then config\<lparr>MinerGasPrice := Some (default_gas_price e)\<rparr>
                  else config)"

definition make_cache_config :: "Config \<Rightarrow> string \<Rightarrow> CacheConfig" where
  "make_cache_config config scheme =
     \<lparr>TrieCleanLimit = TrieCleanCache config,
      TrieCleanNoPrefetch = NoPrefetch config,
      TrieDirtyLimit = TrieDirtyCache config,
      TrieDirtyDisabled = NoPruning config,
      TrieTimeLimit = TrieTimeout config,
      SnapshotLimit = SnapshotCache config,
      CachePreimages = Preimages config,
      CacheStateHistory = StateHistory config,
      CacheStateScheme = scheme\<rparr>"

text \<open>Lines 220 to 276: the blockchain, the pools, the handler and the registrations.\<close>

definition New_chain :: "env \<Rightarrow> Config \<Rightarrow> CacheConfig \<Rightarrow> uint64 \<Rightarrow> event list \<Rightarrow> new_result" where
  "New_chain e config cc netID t =
     (let t1 = t @ [EvNewBlockChain cc] in
      case new_blockchain e cc of
        Some err \<Rightarrow> (Inl err, config, t1)
      | None \<Rightarrow>
         (let config1 = (if BlobPoolDatadir config \<noteq> []
                         then config\<lparr>BlobPoolDatadir := resolve_path e (BlobPoolDatadir config)\<rparr>
                         else config);
              config2 = (if TxPoolJournal config1 \<noteq> []
                         then config1\<lparr>TxPoolJournal := resolve_path e (TxPoolJournal config1)\<rparr>
                         else config1);
              t2 = t1 @ [EvBloomIndexerStart, EvBlobPoolNew, EvLegacyPoolNew, EvTxPoolNew]
          in case txpool_new e of
               Some err \<Rightarrow> (Inl err, config2, t2)
             | None \<Rightarrow>
                (let cacheLimit = TrieCleanLimit cc + TrieDirtyLimit cc + SnapshotLimit cc;
                     t3 = t2 @ [EvNewHandler cacheLimit]
                 in case new_handler e of
                      Some err \<Rightarrow> (Inl err, config2, t3)
                    | None \<Rightarrow>
                       (Inr \<lparr>networkID = netID, gasPrice = MinerGasPrice config2\<rparr>,
                        config2,
                        t3 @ [EvMinerNew, EvNewOracle, EvNewNetAPI, EvRegisterAPIs,
                              EvRegisterProtocols, EvRegisterLifecycle, EvMarkStartup]))))"

text \<open>Lines 185 to 211: the cache configuration and the optional live tracer.\<close>

definition New_configs :: "env \<Rightarrow> Config \<Rightarrow> string \<Rightarrow> uint64 \<Rightarrow> event list \<Rightarrow> new_result" where
  "New_configs e config scheme netID t =
     (let cc = make_cache_config config scheme in
      if VMTrace config \<noteq> [] then
        (let traceConfig = (if VMTraceJsonConfig config \<noteq> [] then VMTraceJsonConfig config
                            else ''{}'');
             t1 = t @ [EvNewTracer (VMTrace config) traceConfig]
         in case new_tracer e (VMTrace config) traceConfig of
              Some err \<Rightarrow> (Inl (TracerFailed (VMTrace config) err), config, t1)
            | None \<Rightarrow> New_chain e config cc netID t1)
      else New_chain e config cc netID t)"

text \<open>Lines 168 to 184: the check of the persisted database version.\<close>

definition New_version_check :: "env \<Rightarrow> Config \<Rightarrow> string \<Rightarrow> uint64 \<Rightarrow> event list \<Rightarrow> new_result" where
  "New_version_check e config scheme netID t =
     (let t1 = t @ [EvReadDatabaseVersion];
          bcVersion = read_database_version e
      in if \<not> SkipBcVersionCheck config then
           (case bcVersion of
              None \<Rightarrow>
                New_configs e config scheme netID (t1 @ [EvWriteDatabaseVersion (BlockChainVersion e)])
            | Some v \<Rightarrow>
                if v > BlockChainVersion e then
                  (Inl (DatabaseVersionTooNew v (BlockChainVersion e)), config, t1)
                else if v < BlockChainVersion e then
                  New_configs e config scheme netID (t1 @ [EvWriteDatabaseVersion (BlockChainVersion e)])
                else New_configs e config scheme netID t1)
         else New_configs e config scheme netID t1)"

text \<open>Lines 134 to 167: pruning recovery, chain configuration, engine, node object.\<close>

definition New_with_scheme :: "env \<Rightarrow> Config \<Rightarrow> string \<Rightarrow> event list \<Rightarrow> new_result" where
  "New_with_scheme e config scheme t =
     (let t1 = (if scheme = HashScheme then t @ [EvRecoverPruning] else t) @ [EvLoadChainConfig] in
      case load_chain_config e of
        Inl err \<Rightarrow> (Inl err, config, t1)
      | Inr chainID \<Rightarrow>
         (let t2 = t1 @ [EvCreateConsensusEngine] in
          case create_consensus_engine e of
            Some err \<Rightarrow> (Inl err, config, t2)
          | None \<Rightarrow>
             (let netID = (if NetworkId config = 0 then chainID else NetworkId config)
              in New_version_check e config scheme netID
                   (t2 @ [EvNewBloomIndexer, EvNewShutdownTracker]))))"

text \<open>
  \<open>New\<close> itself. The configuration is reached through a pointer, so what \<open>New\<close> stores
  into it stays stored when \<open>New\<close> fails: the second component of the result is the
  configuration as \<open>New\<close> leaves it.
\<close>

definition New :: "env \<Rightarrow> Config \<Rightarrow> new_result" where
  "New e config =
     (if \<not> sync_mode_is_valid e then (Inl (InvalidSyncMode (SyncMode config)), config, [])
      else
        (let config1 = sanitize_caches (sanitize_gas_price e config);
             t1 = [EvOpenDatabaseWithFreezer]
         in case open_database e of
              Some err \<Rightarrow> (Inl err, config1, t1)
            | None \<Rightarrow>
               (let t2 = t1 @ [EvParseStateScheme (StateScheme config1)] in
                case parse_state_scheme e (StateScheme config1) of
                  Inl err \<Rightarrow> (Inl err, config1, t2)
                | Inr scheme \<Rightarrow> New_with_scheme e config1 scheme t2)))"

text \<open>
  Modelled from the spec: \<open>rawdb.ParseStateScheme\<close> is not among the sources. Section 4.1
  says: construction selects hash-scheme or path-scheme exclusively for the lifetime of the
  database; mixing schemes on one store is rejected with a configuration error.
  \<open>stored\<close> is the scheme already persisted on the store (empty when the store is fresh),
  \<open>provided\<close> the requested one (empty when none is requested), and \<open>dflt\<close> the scheme of
  a fresh store with no request, which the spec leaves open.
\<close>

definition ParseStateScheme :: "string \<Rightarrow> string \<Rightarrow> string \<Rightarrow> error + string" where
  "ParseStateScheme dflt stored provided =
     (if provided = [] then Inr (if stored = [] then dflt else stored)
      else if provided \<noteq> HashScheme \<and> provided \<noteq> PathScheme then
        Inl (ConfigError ''invalid state scheme'')
      else if stored = [] \<or> provided = stored then Inr provided
      else Inl (ConfigError ''incompatible state scheme''))"

text \<open>Reading the result of \<open>New\<close>.\<close>

definition result_of :: "new_result \<Rightarrow> error + rajchain" where
  "result_of r = fst r"


definition trace_of :: "new_result \<Rightarrow> event list" where
  "trace_of r = snd (snd r)"

definition resolved_scheme :: "env \<Rightarrow> Config \<Rightarrow> string option" where
  \<comment> \<open>The scheme that line 130 binds, when \<open>New\<close> gets that far and the call succeeds.\<close>
  "resolved_scheme e config =
     (if sync_mode_is_valid e \<and> open_database e = None then
        (case parse_state_scheme e (StateScheme (sanitize_caches (sanitize_gas_price e config))) of
           Inl err \<Rightarrow> None
         | Inr scheme \<Rightarrow> Some scheme)
      else None)"

definition reaches_version_check :: "env \<Rightarrow> Config \<Rightarrow> bool" where
  \<comment> \<open>Every fallible call before line 168 succeeds.\<close>
  "reaches_version_check e config \<longleftrightarrow>
     resolved_scheme e config \<noteq> None \<and> isl (load_chain_config e) = False
     \<and> create_consensus_engine e = None"

text \<open>
  An environment in which every collaborator succeeds, on a store that holds the state
  scheme \<open>stored\<close> and the database version \<open>version\<close>.
\<close>

definition example_env :: "string \<Rightarrow> string \<Rightarrow> uint64 option \<Rightarrow> env" where
  "example_env dflt stored version =
     \<lparr>sync_mode_is_valid = True, default_gas_price = 1000000, open_database = None,
      parse_state_scheme = ParseStateScheme dflt stored, load_chain_config = Inr 1,
      create_consensus_engine = None, read_database_version = version,
      BlockChainVersion = 9, new_tracer = (\<lambda>name cfg. None),
      new_blockchain = (\<lambda>cc. None), resolve_path = (\<lambda>p. ''/data/'' @ p),
      txpool_new = None, new_handler = None\<rparr>"

text \<open>Reading a trace.\<close>

fun phase :: "event \<Rightarrow> nat" where
  \<comment> \<open>The place of a call in the program text of \<open>New\<close>.\<close>
  "phase EvOpenDatabaseWithFreezer = 0"
| "phase (EvParseStateScheme _) = 1"
| "phase EvRecoverPruning = 2"
| "phase EvLoadChainConfig = 3"
| "phase EvCreateConsensusEngine = 4"
| "phase EvNewBloomIndexer = 5"
| "phase EvNewShutdownTracker = 6"
| "phase EvReadDatabaseVersion = 7"
| "phase (EvWriteDatabaseVersion _) = 8"
| "phase (EvNewTracer _ _) = 9"
| "phase (EvNewBlockChain _) = 10"
| "phase EvBloomIndexerStart = 11"
| "phase EvBlobPoolNew = 12"
| "phase EvLegacyPoolNew = 13"
| "phase EvTxPoolNew = 14"
| "phase (EvNewHandler _) = 15"
| "phase EvMinerNew = 16"
| "phase EvNewOracle = 17"
| "phase EvNewNetAPI = 18"
| "phase EvRegisterAPIs = 19"
| "phase EvRegisterProtocols = 20"
| "phase EvRegisterLifecycle = 21"
| "phase EvMarkStartup = 22"

fun is_parse_state_scheme :: "event \<Rightarrow> bool" where
  "is_parse_state_scheme (EvParseStateScheme _) = True"
| "is_parse_state_scheme _ = False"

fun is_new_blockchain :: "event \<Rightarrow> bool" where
  "is_new_blockchain (EvNewBlockChain _) = True"
| "is_new_blockchain _ = False"

fun preceded_by :: "('a \<Rightarrow> bool) \<Rightarrow> ('a \<Rightarrow> bool) \<Rightarrow> 'a list \<Rightarrow> bool" where
  \<comment> \<open>\<open>preceded_by P Q t\<close>: no event with \<open>Q\<close> occurs in \<open>t\<close> before the first event with \<open>P\<close>.\<close>
  "preceded_by P Q [] = True"
| "preceded_by P Q (x # xs) = (if P x then True else \<not> Q x \<and> preceded_by P Q xs)"

section \<open>eth/backend.go: Stop\<close>

text \<open>
  \<open>Stop\<close> calls its collaborators one after the other. The only state of the node object
  that \<open>Stop\<close> itself changes is the channel \<open>closeBloomHandler\<close>: closing a closed channel
  panics, which ends \<open>Stop\<close> at that statement.
\<close>

datatype stop_event =
    DiscmixClose
  | HandlerStop
  | BloomIndexerClose
  | CloseBloomHandler
  | TxPoolClose
  | BlockchainStop
  | EngineClose
  | ShutdownTrackerStop
  | ChainDbClose
  | EventMuxStop

datatype stop_outcome = Returned | Panicked

definition Stop :: "bool \<Rightarrow> stop_outcome \<times> bool \<times> stop_event list" where
  \<comment> \<open>The argument and the second component of the result: is \<open>closeBloomHandler\<close> closed.\<close>
  "Stop bloom_closed =
     (let t1 = [DiscmixClose, HandlerStop, BloomIndexerClose, CloseBloomHandler] in
      if bloom_closed then (Panicked, True, t1)
      else (Returned, True,
            t1 @ [TxPoolClose, BlockchainStop, EngineClose, ShutdownTrackerStop,
                  ChainDbClose, EventMuxStop]))"


section \<open>triedb/states.go\<close>

type_synonym Hash = "256 word"
type_synonym Address = "160 word"
type_synonym bytes = "8 word list"

text \<open>A Go map is a reference: \<open>None\<close> is the nil map, \<open>Some m\<close> a map made by \<open>make\<close>.\<close>

type_synonym ('k, 'v) go_map = "('k \<rightharpoonup> 'v) option"

record StateSet =
  Accounts :: "(Hash, bytes) go_map"
  AccountsOrigin :: "(Address, bytes) go_map"
  Storages :: "(Hash, (Hash, bytes) go_map) go_map"
  StoragesOrigin :: "(Address, (Hash, bytes) go_map) go_map"

text \<open>A \<open>*StateSet\<close> is \<open>None\<close> for the nil pointer.\<close>

definition NewStateSet :: "StateSet option" where
  "NewStateSet =
     Some \<lparr>Accounts = Some Map.empty,
           AccountsOrigin = Some Map.empty,
           Storages = Some Map.empty,
           StoragesOrigin = Some Map.empty\<rparr>"

text \<open>
  \<open>pathdb.NewStateSetWithOrigin\<close> is not among the sources: \<open>internal\<close> takes it as its
  first argument. It returns a pointer, \<open>None\<close> when nil.
\<close>

definition internal ::
  "((Address, bytes) go_map \<Rightarrow> (Address, (Hash, bytes) go_map) go_map \<Rightarrow> 'r option)
    \<Rightarrow> StateSet option \<Rightarrow> 'r option" where
  "internal NewStateSetWithOrigin st =
     (case st of
        None \<Rightarrow> None
      | Some s \<Rightarrow> NewStateSetWithOrigin (AccountsOrigin s) (StoragesOrigin s))"

text \<open>
  Modelled from the spec: \<open>pathdb.StateSetWithOrigin\<close> and its constructor are not among the
  sources. Section 3 says a diff layer holds the State Set's origin data needed to reverse
  it: the set made here holds the two origin mappings it is given.
\<close>

record StateSetWithOrigin =
  accountOrigin :: "(Address, bytes) go_map"
  storageOrigin :: "(Address, (Hash, bytes) go_map) go_map"

definition NewStateSetWithOrigin ::
  "(Address, bytes) go_map \<Rightarrow> (Address, (Hash, bytes) go_map) go_map
    \<Rightarrow> StateSetWithOrigin option" where
  "NewStateSetWithOrigin ao so = Some \<lparr>accountOrigin = ao, storageOrigin = so\<rparr>"


section \<open>The test helper camel\<close>

text \<open>
  A Go string is a sequence of bytes: \<open>string\<close>, a list of 8-bit characters. Indexing a
  string yields a byte, and \<open>rune(b)\<close> turns the byte into the code point of the same
  number, a rune (here a natural number).
\<close>

fun Split :: "string \<Rightarrow> char \<Rightarrow> string list" where
  \<comment> \<open>\<open>strings.Split(s, sep)\<close> for a separator of one byte: always at least one piece.\<close>
  "Split [] sep = [[]]"
| "Split (c # cs) sep =
     (if c = sep then [] # Split cs sep
      else (case Split cs sep of p # ps \<Rightarrow> (c # p) # ps | [] \<Rightarrow> [[c]]))"

definition ToUpper :: "nat \<Rightarrow> nat" where
  \<comment> \<open>\<open>unicode.ToUpper\<close> on the code points up to U+00FF, which are all that a byte
      converts to: the ASCII branch, then the case ranges of Latin-1. Code points above
      U+00FF are outside what is transcribed here and are returned unchanged.\<close>
  "ToUpper r =
     (if r \<le> 0x7F then (if 0x61 \<le> r \<and> r \<le> 0x7A then r - 0x20 else r)
      else if r = 0xB5 then r + 743
      else if (0xE0 \<le> r \<and> r \<le> 0xF6) \<or> (0xF8 \<le> r \<and> r \<le> 0xFE) then r - 32
      else if r = 0xFF then r + 121
      else r)"

definition string_of_rune :: "nat \<Rightarrow> string" where
  \<comment> \<open>The conversion \<open>string(r)\<close>: the UTF-8 encoding of the code point, and that of
      U+FFFD for a surrogate or a value beyond U+10FFFF.\<close>
  "string_of_rune r =
     (if r < 0x80 then [char_of r]
      else if r < 0x800 then [char_of (0xC0 + r div 64), char_of (0x80 + r mod 64)]
      else if 0xD800 \<le> r \<and> r \<le> 0xDFFF then [CHR 0xEF, CHR 0xBF, CHR 0xBD]
      else if r < 0x10000 then
        [char_of (0xE0 + r div 4096), char_of (0x80 + r div 64 mod 64), char_of (0x80 + r mod 64)]
      else if r \<le> 0x10FFFF then
        [char_of (0xF0 + r div 262144), char_of (0x80 + r div 4096 mod 64),
         char_of (0x80 + r div 64 mod 64), char_of (0x80 + r mod 64)]
      else [CHR 0xEF, CHR 0xBF, CHR 0xBD])"

datatype panic = IndexOutOfRange nat nat

text \<open>
  The loop of \<open>camel\<close>, from index \<open>i\<close> on. \<open>pieces[i][0]\<close> panics when the piece is
  empty; \<open>pieces[i][1:]\<close> is the rest of a piece that has a first byte.
\<close>

function camel_loop :: "nat \<Rightarrow> string list \<Rightarrow> panic + string list" where
  "camel_loop i pieces =
     (if i < length pieces then
        (case pieces ! i of
           [] \<Rightarrow> Inl (IndexOutOfRange 0 0)
         | b # rest \<Rightarrow>
             camel_loop (Suc i) (pieces[i := string_of_rune (ToUpper (of_char b)) @ rest]))
      else Inr pieces)"
  by pat_completeness auto
termination
  by (relation "measure (\<lambda>(i, pieces). length pieces - i)") auto

definition camel :: "string \<Rightarrow> panic + string" where
  "camel str =
     (case camel_loop 1 (Split str (CHR ''_'')) of
        Inl p \<Rightarrow> Inl p
      | Inr pieces \<Rightarrow> Inr (concat pieces))"

definition no_empty_piece_after_first :: "string \<Rightarrow> bool" where
  "no_empty_piece_after_first str \<longleftrightarrow> (\<forall>p \<in> set (tl (Split str (CHR ''_''))). p \<noteq> [])"

definition upper_first_byte :: "string \<Rightarrow> string" where
  \<comment> \<open>What one round of the loop stores for a piece that is not empty.\<close>
  "upper_first_byte p = (case p of [] \<Rightarrow> [] | b # rest \<Rightarrow> string_of_rune (ToUpper (of_char b)) @ rest)"

text \<open>
  The reading of the claim: the first rune of a piece is its first UTF-8 sequence. The
  decoder covers the sequences of one and two bytes; \<open>None\<close> stands for a first rune
  outside that, or above U+00FF where \<open>ToUpper\<close> is not transcribed.
\<close>

definition first_rune :: "string \<Rightarrow> (nat \<times> nat) option" where
  \<comment> \<open>The first rune of the string and the number of bytes it takes.\<close>
  "first_rune p =
     (case p of
        [] \<Rightarrow> None
      | b0 # bs \<Rightarrow>
          if of_char b0 < (0x80 :: nat) then Some (of_char b0, 1)
          else if (0xC2 :: nat) \<le> of_char b0 \<and> of_char b0 \<le> (0xDF :: nat) then
            (case bs of
               [] \<Rightarrow> None
             | b1 # _ \<Rightarrow>
                 if (0x80 :: nat) \<le> of_char b1 \<and> of_char b1 \<le> (0xBF :: nat)
                 then Some ((of_char b0 - 0xC0) * 64 + (of_char b1 - 0x80), 2)
                 else None)
          else None)"

definition upper_first_rune :: "string \<Rightarrow> string option" where
  "upper_first_rune p =
     (case first_rune p of
        None \<Rightarrow> None
      | Some (r, n) \<Rightarrow> if r \<le> 0xFF then Some (string_of_rune (ToUpper r) @ drop n p) else None)"

fun those_strings :: "string option list \<Rightarrow> string list option" where
  "those_strings [] = Some []"
| "those_strings (None # _) = None"
| "those_strings (Some x # xs) = (case those_strings xs of None \<Rightarrow> None | Some ys \<Rightarrow> Some (x # ys))"

definition camel_by_rune :: "string \<Rightarrow> string option" where
  \<comment> \<open>The pieces joined, each piece after the first with its first rune upper-cased.\<close>
  "camel_by_rune str =
     (case Split str (CHR ''_'') of
        [] \<Rightarrow> None
      | p0 # ps \<Rightarrow>
          (case those_strings (map upper_first_rune ps) of
             None \<Rightarrow> None
           | Some qs \<Rightarrow> Some (concat (p0 # qs))))"

definition starts_ascii :: "string \<Rightarrow> bool" where
  "starts_ascii p = (case p of [] \<Rightarrow> False | b # _ \<Rightarrow> of_char b < (0x80 :: nat))"


section \<open>The layer tree of the path scheme\<close>





















section \<open>Signed 64-bit arithmetic without overflow\<close>

lemma sint_in:
  assumes "- (2 ^ 63) \<le> (x::int)" and "x < 2 ^ 63"
  shows "sint (word_of_int x :: go_int) = x"
proof -
  have "signed_take_bit 63 x = x"
    using assms by (rule signed_take_bit_int_eq_self)
  then show ?thesis
    by (simp add: signed_of_int)
qed

lemma sint_add_in:
  assumes "- (2 ^ 63) \<le> sint a + sint b" and "sint a + sint b < 2 ^ 63"
  shows "sint (a + b :: go_int) = sint a + sint b"
proof -
  have "a + b = word_of_int (sint a + sint b)"
    by simp
  then show ?thesis
    using sint_in [OF assms] by simp
qed

lemma sint_mult_in:
  assumes "- (2 ^ 63) \<le> sint a * sint b" and "sint a * sint b < 2 ^ 63"
  shows "sint (a * b :: go_int) = sint a * sint b"
proof -
  have "a * b = word_of_int (sint a * sint b)"
    by simp
  then show ?thesis
    using sint_in [OF assms] by simp
qed

lemma sint_go_div_pos:
  assumes "0 \<le> sint a" and "0 < sint b"
  shows "sint (go_div a b) = sint a div sint b"
proof -
  have eq: "sint a sdiv sint b = sint a div sint b"
    using assms by (simp add: signed_divide_int_def sgn_if)
  have "sint a div sint b \<le> sint a"
    using zdiv_mono2 [of "sint a" 1 "sint b"] assms by simp
  moreover have "sint a < 2 ^ 63"
    using sint_lt [of a] by simp
  moreover have "0 \<le> sint a div sint b"
    using assms by (simp add: pos_imp_zdiv_nonneg_iff)
  ultimately have "sint (word_of_int (sint a div sint b) :: go_int) = sint a div sint b"
    by (intro sint_in) simp_all
  then show ?thesis
    by (simp add: go_div_def eq)
qed

lemma sint_times3_div5:
  assumes "0 < sint (d::go_int)" and "sint d * 3 < 2 ^ 63"
  shows "sint (go_div (d * 3) 5) = sint d * 3 div 5"
proof -
  have "sint (d * 3) = sint d * 3"
    using assms sint_mult_in [of d 3] by simp
  then show ?thesis
    using assms sint_go_div_pos [of "d * 3" 5] by simp
qed

lemma sint_times2_div5:
  assumes "0 < sint (d::go_int)" and "sint d * 2 < 2 ^ 63"
  shows "sint (go_div (d * 2) 5) = sint d * 2 div 5"
proof -
  have "sint (d * 2) = sint d * 2"
    using assms sint_mult_in [of d 2] by simp
  then show ?thesis
    using assms sint_go_div_pos [of "d * 2" 5] by simp
qed


section \<open>Cache sanitization\<close>

text \<open>
  C9, as the claim states it, fails on 64-bit integers: with a dirty cache of \<open>2^62\<close> the
  product \<open>d * 3\<close> wraps around to a negative number, and the clean cache shrinks by
  922337203685477580 where the claim has it grow by \<open>d * 3 / 5 = 2767011611056432742\<close>.
\<close>

theorem sanitize_caches_overflow_counterexample:
  "NoPruning (example_config\<lparr>NoPruning := True, TrieDirtyCache := 4611686018427387904\<rparr>)
   \<and> 0 < sint (TrieDirtyCache (example_config\<lparr>NoPruning := True, TrieDirtyCache := 4611686018427387904\<rparr>))
   \<and> 0 < sint (SnapshotCache (example_config\<lparr>NoPruning := True, TrieDirtyCache := 4611686018427387904\<rparr>))
   \<and> sint (TrieCleanCache (example_config\<lparr>NoPruning := True, TrieDirtyCache := 4611686018427387904\<rparr>))
       + sint (TrieDirtyCache (example_config\<lparr>NoPruning := True, TrieDirtyCache := 4611686018427387904\<rparr>)) * 3 div 5
       = 2767011611056432896
   \<and> sint (TrieCleanCache (sanitize_caches
        (example_config\<lparr>NoPruning := True, TrieDirtyCache := 4611686018427387904\<rparr>)))
       = - 922337203685477426"
  by (simp add: example_config_def sanitize_caches_def go_div_def word_sless_alt
      signed_divide_int_def)

text \<open>
  C9, amended: for every configuration with \<open>NoPruning\<close> set and a dirty cache \<open>d > 0\<close>,
  provided the product \<open>d * 3\<close> and the new cache sizes fit a Go \<open>int\<close>, the sanitized
  dirty cache is 0; with a snapshot cache above 0 the clean cache has grown by
  \<open>d * 3 / 5\<close> and the snapshot cache by \<open>d * 2 / 5\<close> (integer quotients), otherwise the
  clean cache has grown by \<open>d\<close> and the snapshot cache is unchanged; and the two caches
  together have grown by at most \<open>d\<close>.
\<close>

theorem sanitize_caches_redistributes:
  assumes np: "NoPruning config"
    and d: "0 < sint (TrieDirtyCache config)"
    and fits: "if 0 < sint (SnapshotCache config)
        then fits_int (sint (TrieDirtyCache config) * 3)
           \<and> fits_int (sint (TrieCleanCache config) + sint (TrieDirtyCache config) * 3 div 5)
           \<and> fits_int (sint (SnapshotCache config) + sint (TrieDirtyCache config) * 2 div 5)
        else fits_int (sint (TrieCleanCache config) + sint (TrieDirtyCache config))"
  shows "TrieDirtyCache (sanitize_caches config) = 0
    \<and> (if 0 < sint (SnapshotCache config)
       then sint (TrieCleanCache (sanitize_caches config))
              = sint (TrieCleanCache config) + sint (TrieDirtyCache config) * 3 div 5
          \<and> sint (SnapshotCache (sanitize_caches config))
              = sint (SnapshotCache config) + sint (TrieDirtyCache config) * 2 div 5
       else sint (TrieCleanCache (sanitize_caches config))
              = sint (TrieCleanCache config) + sint (TrieDirtyCache config)
          \<and> SnapshotCache (sanitize_caches config) = SnapshotCache config)
    \<and> (sint (TrieCleanCache (sanitize_caches config)) - sint (TrieCleanCache config))
        + (sint (SnapshotCache (sanitize_caches config)) - sint (SnapshotCache config))
        \<le> sint (TrieDirtyCache config)"
proof (cases "0 < sint (SnapshotCache config)")
  case True
  let ?d = "sint (TrieDirtyCache config)"
  from fits True
  have m3: "?d * 3 < 2 ^ 63"
    and c: "- (2 ^ 63) \<le> sint (TrieCleanCache config) + ?d * 3 div 5"
           "sint (TrieCleanCache config) + ?d * 3 div 5 < 2 ^ 63"
    and s: "- (2 ^ 63) \<le> sint (SnapshotCache config) + ?d * 2 div 5"
           "sint (SnapshotCache config) + ?d * 2 div 5 < 2 ^ 63"
    by (simp_all add: fits_int_def)
  have g3: "sint (go_div (TrieDirtyCache config * 3) 5) = ?d * 3 div 5"
    using d m3 by (rule sint_times3_div5)
  have g2: "sint (go_div (TrieDirtyCache config * 2) 5) = ?d * 2 div 5"
    using d m3 by (intro sint_times2_div5) simp_all
  have clean: "sint (TrieCleanCache config + go_div (TrieDirtyCache config * 3) 5)
      = sint (TrieCleanCache config) + ?d * 3 div 5"
    using sint_add_in [of "TrieCleanCache config" "go_div (TrieDirtyCache config * 3) 5"] c g3
    by simp
  have snap: "sint (SnapshotCache config + go_div (TrieDirtyCache config * 2) 5)
      = sint (SnapshotCache config) + ?d * 2 div 5"
    using sint_add_in [of "SnapshotCache config" "go_div (TrieDirtyCache config * 2) 5"] s g2
    by simp
  have le: "?d * 3 div 5 + ?d * 2 div 5 \<le> ?d"
    by linarith
  show ?thesis
    using True np d clean snap le
    by (simp add: sanitize_caches_def word_sless_alt Let_def)
next
  case False
  let ?d = "sint (TrieDirtyCache config)"
  from fits False
  have c: "- (2 ^ 63) \<le> sint (TrieCleanCache config) + ?d"
          "sint (TrieCleanCache config) + ?d < 2 ^ 63"
    by (simp_all add: fits_int_def)
  have clean: "sint (TrieCleanCache config + TrieDirtyCache config)
      = sint (TrieCleanCache config) + ?d"
    using sint_add_in [of "TrieCleanCache config" "TrieDirtyCache config"] c by simp
  show ?thesis
    using False np d clean
    by (simp add: sanitize_caches_def word_sless_alt Let_def)
qed

theorem sanitize_caches_redistributes_witness:
  "TrieDirtyCache (sanitize_caches (example_config\<lparr>NoPruning := True\<rparr>)) = 0
   \<and> sint (TrieCleanCache (sanitize_caches (example_config\<lparr>NoPruning := True\<rparr>))) = 307
   \<and> sint (SnapshotCache (sanitize_caches (example_config\<lparr>NoPruning := True\<rparr>))) = 204
   \<and> sint (TrieCleanCache (sanitize_caches
        (example_config\<lparr>NoPruning := True, SnapshotCache := 0\<rparr>))) = 410"
  using sanitize_caches_redistributes [of "example_config\<lparr>NoPruning := True\<rparr>"]
    sanitize_caches_redistributes [of "example_config\<lparr>NoPruning := True, SnapshotCache := 0\<rparr>"]
  by (simp add: example_config_def fits_int_def)


section \<open>State sets\<close>

text \<open>
  C1: a state set is a record of exactly the four mappings \<open>Accounts\<close>,
  \<open>AccountsOrigin\<close>, \<open>Storages\<close> and \<open>StoragesOrigin\<close>, and \<open>NewStateSet\<close> returns a
  state set (not nil) in which each of the four is a map that has been made and is empty.
\<close>

theorem NewStateSet_initialized_empty:
  "\<exists>s a ao st so.
     NewStateSet = Some s
     \<and> s = \<lparr>Accounts = Some a, AccountsOrigin = Some ao, Storages = Some st, StoragesOrigin = Some so\<rparr>
     \<and> dom a = {} \<and> dom ao = {} \<and> dom st = {} \<and> dom so = {}"
  by (simp add: NewStateSet_def)

text \<open>
  C8: for every state set pointer, nil included, \<open>internal\<close> returns nil exactly when the
  receiver is nil (the constructor of the path database never returning nil), and
  otherwise returns what the constructor makes of \<open>AccountsOrigin\<close> and
  \<open>StoragesOrigin\<close> alone: replacing \<open>Accounts\<close> and \<open>Storages\<close> by any other mappings
  leaves the result as it is.
\<close>

theorem internal_nil_iff_and_origin_only:
  assumes "\<forall>ao so. mk ao so \<noteq> None"
  shows "(internal mk p = None \<longleftrightarrow> p = None)
    \<and> (\<forall>s. p = Some s \<longrightarrow> internal mk p = mk (AccountsOrigin s) (StoragesOrigin s))
    \<and> (\<forall>s a st. p = Some s \<longrightarrow>
          internal mk (Some (s\<lparr>Accounts := a, Storages := st\<rparr>)) = internal mk p)"
  using assms by (cases p) (simp_all add: internal_def)

theorem internal_nil_iff_and_origin_only_witness:
  "internal NewStateSetWithOrigin NewStateSet
     = Some \<lparr>accountOrigin = Some Map.empty, storageOrigin = Some Map.empty\<rparr>
   \<and> internal NewStateSetWithOrigin
       (Some \<lparr>Accounts = None, AccountsOrigin = Some Map.empty,
              Storages = Some [5 \<mapsto> None], StoragesOrigin = Some Map.empty\<rparr>)
     = internal NewStateSetWithOrigin NewStateSet
   \<and> internal NewStateSetWithOrigin NewStateSet \<noteq> None
   \<and> internal NewStateSetWithOrigin None = None"
  using internal_nil_iff_and_origin_only [of NewStateSetWithOrigin NewStateSet]
    internal_nil_iff_and_origin_only [of NewStateSetWithOrigin None]
  by (simp add: NewStateSetWithOrigin_def NewStateSet_def internal_def)

section \<open>The trace of New\<close>

lemma StateScheme_sanitized:
  "StateScheme (sanitize_caches (sanitize_gas_price e config)) = StateScheme config"
  by (simp add: sanitize_caches_def sanitize_gas_price_def Let_def split: option.splits)

lemma is_parse_state_scheme_phase: "is_parse_state_scheme x \<longleftrightarrow> phase x = 1"
  by (cases x) simp_all

lemma is_new_blockchain_phase: "is_new_blockchain x \<longleftrightarrow> phase x = 10"
  by (cases x) simp_all

subsection \<open>Blockchain, pools, handler\<close>

lemma New_chain_append:
  "trace_of (New_chain e c cc n t) = t @ trace_of (New_chain e c cc n [])"
  by (simp add: New_chain_def trace_of_def Let_def split: option.splits)

lemma New_chain_result:
  "result_of (New_chain e c cc n t) = result_of (New_chain e c cc n [])"
  by (simp add: New_chain_def result_of_def Let_def split: option.splits)


lemma New_chain_events:
  "x \<in> set (trace_of (New_chain e c cc n [])) \<Longrightarrow> x = EvNewBlockChain cc \<or> 10 < phase x"
  by (auto simp: New_chain_def trace_of_def Let_def split: option.splits)

lemma New_chain_calls_blockchain:
  "EvNewBlockChain cc \<in> set (trace_of (New_chain e c cc n []))"
  by (simp add: New_chain_def trace_of_def Let_def split: option.splits)

lemma New_chain_mark:
  "EvMarkStartup \<in> set (trace_of (New_chain e c cc n [])) \<longleftrightarrow>
     \<not> isl (result_of (New_chain e c cc n []))"
  by (simp add: New_chain_def trace_of_def result_of_def Let_def split: option.splits)

subsection \<open>Cache configuration and tracer\<close>

lemma New_configs_append:
  "trace_of (New_configs e c s n t) = t @ trace_of (New_configs e c s n [])"
proof (cases "VMTrace c = []")
  case True
  then show ?thesis
    using New_chain_append [of e c "make_cache_config c s" n t]
    by (simp add: New_configs_def Let_def)
next
  case False
  let ?j = "if VMTraceJsonConfig c \<noteq> [] then VMTraceJsonConfig c else ''{}''"
  show ?thesis
  proof (cases "new_tracer e (VMTrace c) ?j")
    case None
    with False show ?thesis
      using New_chain_append [of e c "make_cache_config c s" n "t @ [EvNewTracer (VMTrace c) ?j]"]
        New_chain_append [of e c "make_cache_config c s" n "[EvNewTracer (VMTrace c) ?j]"]
      by (simp add: New_configs_def Let_def)
  next
    case (Some err)
    with False show ?thesis
      by (simp add: New_configs_def Let_def trace_of_def)
  qed
qed

lemma New_configs_result:
  "result_of (New_configs e c s n t) = result_of (New_configs e c s n [])"
proof (cases "VMTrace c = []")
  case True
  then show ?thesis
    using New_chain_result [of e c "make_cache_config c s" n t]
    by (simp add: New_configs_def Let_def)
next
  case False
  let ?j = "if VMTraceJsonConfig c \<noteq> [] then VMTraceJsonConfig c else ''{}''"
  show ?thesis
  proof (cases "new_tracer e (VMTrace c) ?j")
    case None
    with False show ?thesis
      using New_chain_result [of e c "make_cache_config c s" n "t @ [EvNewTracer (VMTrace c) ?j]"]
        New_chain_result [of e c "make_cache_config c s" n "[EvNewTracer (VMTrace c) ?j]"]
      by (simp add: New_configs_def Let_def)
  next
    case (Some err)
    with False show ?thesis
      by (simp add: New_configs_def Let_def result_of_def)
  qed
qed


lemma New_configs_events:
  assumes "x \<in> set (trace_of (New_configs e c s n []))"
  shows "x = EvNewBlockChain (make_cache_config c s) \<or> phase x = 9 \<or> 10 < phase x"
proof (cases "VMTrace c = []")
  case True
  with assms have "x \<in> set (trace_of (New_chain e c (make_cache_config c s) n []))"
    by (simp add: New_configs_def Let_def)
  then show ?thesis
    using New_chain_events [of x e c "make_cache_config c s" n] by auto
next
  case False
  let ?j = "if VMTraceJsonConfig c \<noteq> [] then VMTraceJsonConfig c else ''{}''"
  show ?thesis
  proof (cases "new_tracer e (VMTrace c) ?j")
    case None
    with False assms have "x \<in> set (trace_of (New_chain e c (make_cache_config c s) n
        [EvNewTracer (VMTrace c) ?j]))"
      by (simp add: New_configs_def Let_def)
    then have "x = EvNewTracer (VMTrace c) ?j
        \<or> x \<in> set (trace_of (New_chain e c (make_cache_config c s) n []))"
      using New_chain_append [of e c "make_cache_config c s" n "[EvNewTracer (VMTrace c) ?j]"]
      by auto
    then show ?thesis
      using New_chain_events [of x e c "make_cache_config c s" n] by auto
  next
    case (Some err)
    with False assms show ?thesis
      by (simp add: New_configs_def Let_def trace_of_def)
  qed
qed

lemma New_configs_proceeds:
  "\<exists>x \<in> set (trace_of (New_configs e c s n [])). 8 < phase x"
proof (cases "VMTrace c = []")
  case True
  then show ?thesis
    using New_chain_calls_blockchain [of "make_cache_config c s" e c n]
    by (auto simp: New_configs_def Let_def intro!: bexI [of _ "EvNewBlockChain (make_cache_config c s)"])
next
  case False
  let ?j = "if VMTraceJsonConfig c \<noteq> [] then VMTraceJsonConfig c else ''{}''"
  have "EvNewTracer (VMTrace c) ?j \<in> set (trace_of (New_configs e c s n []))"
    using False New_chain_append [of e c "make_cache_config c s" n "[EvNewTracer (VMTrace c) ?j]"]
    by (cases "new_tracer e (VMTrace c) ?j") (simp_all add: New_configs_def Let_def trace_of_def)
  then show ?thesis
    by (auto intro!: bexI [of _ "EvNewTracer (VMTrace c) ?j"])
qed

lemma New_configs_mark:
  "EvMarkStartup \<in> set (trace_of (New_configs e c s n [])) \<longleftrightarrow>
     \<not> isl (result_of (New_configs e c s n []))"
proof (cases "VMTrace c = []")
  case True
  then show ?thesis
    using New_chain_mark [of e c "make_cache_config c s" n]
    by (simp add: New_configs_def Let_def)
next
  case False
  let ?j = "if VMTraceJsonConfig c \<noteq> [] then VMTraceJsonConfig c else ''{}''"
  show ?thesis
  proof (cases "new_tracer e (VMTrace c) ?j")
    case None
    with False show ?thesis
      using New_chain_mark [of e c "make_cache_config c s" n]
        New_chain_append [of e c "make_cache_config c s" n "[EvNewTracer (VMTrace c) ?j]"]
        New_chain_result [of e c "make_cache_config c s" n "[EvNewTracer (VMTrace c) ?j]"]
      by (simp add: New_configs_def Let_def)
  next
    case (Some err)
    with False show ?thesis
      by (simp add: New_configs_def Let_def trace_of_def result_of_def)
  qed
qed

subsection \<open>Database version check\<close>

lemma version_check_too_new:
  assumes "\<not> SkipBcVersionCheck c" and "read_database_version e = Some v"
    and "BlockChainVersion e < v"
  shows "New_version_check e c s n t
    = (Inl (DatabaseVersionTooNew v (BlockChainVersion e)), c, t @ [EvReadDatabaseVersion])"
  using assms by (simp add: New_version_check_def Let_def)

lemma version_check_upgrade:
  assumes "\<not> SkipBcVersionCheck c"
    and "read_database_version e = None
       \<or> (\<exists>v. read_database_version e = Some v \<and> v < BlockChainVersion e)"
  shows "New_version_check e c s n t
    = New_configs e c s n (t @ [EvReadDatabaseVersion, EvWriteDatabaseVersion (BlockChainVersion e)])"
  using assms by (auto simp: New_version_check_def Let_def)

lemma version_check_cases:
  "(\<exists>v. New_version_check e c s n t
        = (Inl (DatabaseVersionTooNew v (BlockChainVersion e)), c, t @ [EvReadDatabaseVersion]))
   \<or> New_version_check e c s n t
        = New_configs e c s n (t @ [EvReadDatabaseVersion, EvWriteDatabaseVersion (BlockChainVersion e)])
   \<or> New_version_check e c s n t = New_configs e c s n (t @ [EvReadDatabaseVersion])"
  by (simp add: New_version_check_def Let_def split: option.splits)

lemma version_check_append:
  "trace_of (New_version_check e c s n t) = t @ trace_of (New_version_check e c s n [])"
proof -
  have a: "trace_of (New_configs e c s n (t @ u)) = t @ trace_of (New_configs e c s n u)" for u
    using New_configs_append [of e c s n "t @ u"] New_configs_append [of e c s n u] by simp
  show ?thesis
    using a [of "[EvReadDatabaseVersion, EvWriteDatabaseVersion (BlockChainVersion e)]"]
      a [of "[EvReadDatabaseVersion]"]
    by (simp add: New_version_check_def Let_def split: option.splits) (simp add: trace_of_def)
qed


lemma version_check_events:
  assumes "x \<in> set (trace_of (New_version_check e c s n []))"
  shows "x = EvNewBlockChain (make_cache_config c s) \<or> x = EvReadDatabaseVersion
    \<or> x = EvWriteDatabaseVersion (BlockChainVersion e) \<or> phase x = 9 \<or> 10 < phase x"
proof -
  have "x \<in> set (trace_of (New_configs e c s n u)) \<Longrightarrow>
      x \<in> set u \<or> x \<in> set (trace_of (New_configs e c s n []))" for u
    using New_configs_append [of e c s n u] by auto
  then show ?thesis
    using assms version_check_cases [of e c s n "[]"] New_configs_events [of x e c s n]
    by (fastforce simp: trace_of_def)
qed

lemma version_check_mark:
  "EvMarkStartup \<in> set (trace_of (New_version_check e c s n [])) \<longleftrightarrow>
     \<not> isl (result_of (New_version_check e c s n []))"
proof -
  have "EvMarkStartup \<in> set (trace_of (New_configs e c s n u)) \<longleftrightarrow>
      EvMarkStartup \<in> set u \<or> \<not> isl (result_of (New_configs e c s n u))" for u
    using New_configs_append [of e c s n u] New_configs_mark [of e c s n]
      New_configs_result [of e c s n u] by auto
  then show ?thesis
    using version_check_cases [of e c s n "[]"]
    by (auto simp: trace_of_def result_of_def)
qed

lemma version_check_result:
  "result_of (New_version_check e c s n t) = result_of (New_version_check e c s n [])"
proof -
  have a: "result_of (New_configs e c s n (t @ u)) = result_of (New_configs e c s n u)" for u
    using New_configs_result [of e c s n "t @ u"] New_configs_result [of e c s n u] by simp
  show ?thesis
    using a [of "[EvReadDatabaseVersion, EvWriteDatabaseVersion (BlockChainVersion e)]"]
      a [of "[EvReadDatabaseVersion]"]
    by (simp add: New_version_check_def Let_def split: option.splits) (simp add: result_of_def)
qed

subsection \<open>Pruning recovery, chain configuration, engine\<close>

lemma with_scheme_cases:
  obtains (stop) err u where
      "New_with_scheme e c s t
         = (Inl err, c, (if s = HashScheme then t @ [EvRecoverPruning] else t) @ EvLoadChainConfig # u)"
      and "set u \<subseteq> {EvCreateConsensusEngine}"
    | (continue) n where
      "New_with_scheme e c s t
         = New_version_check e c s (if NetworkId c = 0 then n else NetworkId c)
             ((if s = HashScheme then t @ [EvRecoverPruning] else t)
              @ [EvLoadChainConfig, EvCreateConsensusEngine, EvNewBloomIndexer, EvNewShutdownTracker])"
proof (cases "load_chain_config e")
  case (Inl err)
  then have "New_with_scheme e c s t
      = (Inl err, c, (if s = HashScheme then t @ [EvRecoverPruning] else t) @ EvLoadChainConfig # [])"
    by (simp add: New_with_scheme_def Let_def)
  then show ?thesis
    by (rule stop) simp
next
  case (Inr n)
  show ?thesis
  proof (cases "create_consensus_engine e")
    case None
    with Inr show ?thesis
      by (intro continue [of n]) (simp add: New_with_scheme_def Let_def)
  next
    case (Some err)
    with Inr have "New_with_scheme e c s t
        = (Inl err, c, (if s = HashScheme then t @ [EvRecoverPruning] else t)
             @ EvLoadChainConfig # [EvCreateConsensusEngine])"
      by (simp add: New_with_scheme_def Let_def)
    then show ?thesis
      by (rule stop) simp
  qed
qed

lemma with_scheme_continue:
  assumes "load_chain_config e = Inr n" and "create_consensus_engine e = None"
  shows "New_with_scheme e c s t
    = New_version_check e c s (if NetworkId c = 0 then n else NetworkId c)
        ((if s = HashScheme then t @ [EvRecoverPruning] else t)
         @ [EvLoadChainConfig, EvCreateConsensusEngine, EvNewBloomIndexer, EvNewShutdownTracker])"
  using assms by (simp add: New_with_scheme_def Let_def)

lemma with_scheme_stops:
  assumes "isl (load_chain_config e) \<or> create_consensus_engine e \<noteq> None"
  shows "isl (result_of (New_with_scheme e c s t))
    \<and> (\<forall>x \<in> set (trace_of (New_with_scheme e c s t)). x \<in> set t \<or> phase x < 5)"
  using assms
  by (auto simp: New_with_scheme_def Let_def result_of_def trace_of_def
      split: sum.splits option.splits)


lemma with_scheme_events:
  assumes "x \<in> set (trace_of (New_with_scheme e c s t))"
  shows "x \<in> set t \<or> x = EvNewBlockChain (make_cache_config c s)
    \<or> (x = EvRecoverPruning \<and> s = HashScheme)
    \<or> x = EvWriteDatabaseVersion (BlockChainVersion e)
    \<or> (3 \<le> phase x \<and> phase x \<noteq> 8 \<and> phase x \<noteq> 10)"
proof -
  have vc: "x \<in> set (trace_of (New_version_check e c s n u)) \<Longrightarrow>
      x \<in> set u \<or> x \<in> set (trace_of (New_version_check e c s n []))" for u n
    using version_check_append [of e c s n u] by auto
  show ?thesis
  proof (cases rule: with_scheme_cases [of e c s t])
    case (stop err u)
    with assms show ?thesis
      by (auto simp: trace_of_def split: if_splits)
  next
    case (continue n)
    with assms vc
    have "x \<in> set ((if s = HashScheme then t @ [EvRecoverPruning] else t)
             @ [EvLoadChainConfig, EvCreateConsensusEngine, EvNewBloomIndexer, EvNewShutdownTracker])
        \<or> x \<in> set (trace_of (New_version_check e c s (if NetworkId c = 0 then n else NetworkId c) []))"
      by metis
    then show ?thesis
      using version_check_events [of x e c s "if NetworkId c = 0 then n else NetworkId c"]
      by (auto split: if_splits)
  qed
qed

lemma with_scheme_recover_count:
  "count_list (trace_of (New_with_scheme e c s t)) EvRecoverPruning
     = count_list t EvRecoverPruning + (if s = HashScheme then 1 else 0)"
proof -
  have later: "count_list (trace_of (New_version_check e c s n [])) EvRecoverPruning = 0" for n
    using version_check_events [of EvRecoverPruning e c s n] by (auto simp: count_list_0_iff)
  show ?thesis
  proof (cases rule: with_scheme_cases [of e c s t])
    case (stop err u)
    then have "count_list u EvRecoverPruning = 0"
      by (auto simp: count_list_0_iff)
    with stop show ?thesis
      by (simp add: trace_of_def)
  next
    case (continue n)
    then show ?thesis
      using version_check_append [of e c s "if NetworkId c = 0 then n else NetworkId c"
          "(if s = HashScheme then t @ [EvRecoverPruning] else t)
             @ [EvLoadChainConfig, EvCreateConsensusEngine, EvNewBloomIndexer, EvNewShutdownTracker]"]
        later [of "if NetworkId c = 0 then n else NetworkId c"]
      by simp
  qed
qed

lemma with_scheme_mark:
  assumes "EvMarkStartup \<notin> set t"
  shows "EvMarkStartup \<in> set (trace_of (New_with_scheme e c s t)) \<longleftrightarrow>
     \<not> isl (result_of (New_with_scheme e c s t))"
proof -
  have vc: "EvMarkStartup \<in> set (trace_of (New_version_check e c s n u)) \<longleftrightarrow>
      EvMarkStartup \<in> set u \<or> \<not> isl (result_of (New_version_check e c s n u))" for u n
  proof -
    show ?thesis
      using version_check_append [of e c s n u] version_check_mark [of e c s n]
        version_check_result [of e c s n u] by auto
  qed
  show ?thesis
  proof (cases rule: with_scheme_cases [of e c s t])
    case (stop err u)
    with assms show ?thesis
      by (auto simp: trace_of_def result_of_def)
  next
    case (continue n)
    with assms show ?thesis
      using vc by auto
  qed
qed

subsection \<open>New as a whole\<close>

lemma New_resolved:
  assumes "resolved_scheme e config = Some s"
  shows "New e config = New_with_scheme e (sanitize_caches (sanitize_gas_price e config)) s
      [EvOpenDatabaseWithFreezer, EvParseStateScheme (StateScheme config)]"
  using assms
  by (auto simp: New_def resolved_scheme_def Let_def StateScheme_sanitized
      split: if_splits sum.splits option.splits)

lemma New_unresolved:
  assumes "resolved_scheme e config = None"
  shows "isl (result_of (New e config))
    \<and> (trace_of (New e config) = []
       \<or> trace_of (New e config) = [EvOpenDatabaseWithFreezer]
       \<or> trace_of (New e config)
           = [EvOpenDatabaseWithFreezer, EvParseStateScheme (StateScheme config)])"
  using assms
  by (auto simp: New_def resolved_scheme_def Let_def StateScheme_sanitized result_of_def
      trace_of_def split: if_splits sum.splits option.splits)

lemma with_scheme_append:
  "trace_of (New_with_scheme e c s t) = t @ trace_of (New_with_scheme e c s [])"
proof (cases "load_chain_config e")
  case (Inl err)
  then show ?thesis
    by (simp add: New_with_scheme_def Let_def trace_of_def)
next
  case (Inr n)
  show ?thesis
  proof (cases "create_consensus_engine e")
    case None
    have a: "trace_of (New_version_check e c s' m (t @ u)) = t @ trace_of (New_version_check e c s' m u)"
      for u m s'
      using version_check_append [of e c s' m "t @ u"] version_check_append [of e c s' m u] by simp
    from Inr None show ?thesis
      by (simp add: with_scheme_continue a)
  next
    case (Some err)
    with Inr show ?thesis
      by (simp add: New_with_scheme_def Let_def trace_of_def)
  qed
qed

lemma New_resolved_trace:
  assumes "resolved_scheme e config = Some s"
  shows "trace_of (New e config)
    = EvOpenDatabaseWithFreezer # EvParseStateScheme (StateScheme config)
      # trace_of (New_with_scheme e (sanitize_caches (sanitize_gas_price e config)) s [])"
  using New_resolved [OF assms]
    with_scheme_append [of e "sanitize_caches (sanitize_gas_price e config)" s
      "[EvOpenDatabaseWithFreezer, EvParseStateScheme (StateScheme config)]"]
  by simp

lemma New_blockchain_event:
  assumes "EvNewBlockChain cc \<in> set (trace_of (New e config))"
  shows "\<exists>s. resolved_scheme e config = Some s
    \<and> cc = make_cache_config (sanitize_caches (sanitize_gas_price e config)) s"
proof (cases "resolved_scheme e config")
  case None
  with assms show ?thesis
    using New_unresolved [of e config] by auto
next
  case (Some s)
  with assms have "EvNewBlockChain cc
      \<in> set (trace_of (New_with_scheme e (sanitize_caches (sanitize_gas_price e config)) s []))"
    by (simp add: New_resolved_trace)
  then have "cc = make_cache_config (sanitize_caches (sanitize_gas_price e config)) s"
    using with_scheme_events [of "EvNewBlockChain cc" e _ s "[]"] by auto
  with Some show ?thesis by simp
qed





lemma sanitize_caches_keeps:
  "TrieTimeout (sanitize_caches config) = TrieTimeout config"
  "StateHistory (sanitize_caches config) = StateHistory config"
  "SkipBcVersionCheck (sanitize_caches config) = SkipBcVersionCheck config"
  by (simp_all add: sanitize_caches_def Let_def)

lemma HashScheme_not_PathScheme: "HashScheme \<noteq> PathScheme"
  by (simp add: HashScheme_def PathScheme_def)


section \<open>Pruning recovery\<close>

text \<open>
  C7: \<open>New\<close> calls \<open>pruner.RecoverPruning\<close> once when the scheme it has resolved is the
  hash scheme, and not at all otherwise: never when the resolved scheme is the path scheme,
  and never when \<open>New\<close> stops before a scheme is resolved.
\<close>

theorem recover_pruning_iff_hash_scheme:
  "count_list (trace_of (New e config)) EvRecoverPruning
     = (if resolved_scheme e config = Some HashScheme then 1 else 0)
   \<and> (resolved_scheme e config = Some PathScheme \<longrightarrow>
        EvRecoverPruning \<notin> set (trace_of (New e config)))"
proof -
  have count: "count_list (trace_of (New e config)) EvRecoverPruning
      = (if resolved_scheme e config = Some HashScheme then 1 else 0)"
  proof (cases "resolved_scheme e config")
    case None
    then show ?thesis
      using New_unresolved [of e config] by auto
  next
    case (Some s)
    then show ?thesis
      using with_scheme_recover_count [of e "sanitize_caches (sanitize_gas_price e config)" s "[]"]
      by (simp add: New_resolved_trace)
  qed
  moreover have "EvRecoverPruning \<notin> set (trace_of (New e config))"
    if "resolved_scheme e config = Some PathScheme"
    using that count HashScheme_not_PathScheme by (simp add: count_list_0_iff)
  ultimately show ?thesis by simp
qed

theorem recover_pruning_iff_hash_scheme_witness:
  "resolved_scheme (example_env PathScheme HashScheme None) example_config = Some HashScheme
   \<and> count_list (trace_of (New (example_env PathScheme HashScheme None) example_config))
        EvRecoverPruning = 1
   \<and> resolved_scheme (example_env PathScheme [] None) example_config = Some PathScheme
   \<and> EvRecoverPruning \<notin> set (trace_of (New (example_env PathScheme [] None) example_config))"
proof -
  have h: "resolved_scheme (example_env PathScheme HashScheme None) example_config = Some HashScheme"
    by (simp add: resolved_scheme_def example_env_def example_config_def ParseStateScheme_def
        StateScheme_sanitized HashScheme_def)
  have p: "resolved_scheme (example_env PathScheme [] None) example_config = Some PathScheme"
    by (simp add: resolved_scheme_def example_env_def example_config_def ParseStateScheme_def
        StateScheme_sanitized)
  show ?thesis
    using h p recover_pruning_iff_hash_scheme [of "example_env PathScheme HashScheme None" example_config]
      recover_pruning_iff_hash_scheme [of "example_env PathScheme [] None" example_config]
    by simp
qed

lemma sanitize_gas_price_keeps:
  "TrieTimeout (sanitize_gas_price e config) = TrieTimeout config"
  "StateHistory (sanitize_gas_price e config) = StateHistory config"
  "SkipBcVersionCheck (sanitize_gas_price e config) = SkipBcVersionCheck config"
  by (simp_all add: sanitize_gas_price_def split: option.splits)


section \<open>The cache configuration handed to the blockchain\<close>





section \<open>The check of the database version\<close>

text \<open>
  C5: with \<open>SkipBcVersionCheck\<close> unset, a persisted database version above
  \<open>BlockChainVersion\<close> makes \<open>New\<close> return an error, without writing a version, building
  the blockchain or marking a startup, and the error is that of the version check when
  every step before the check has succeeded; a persisted version that is absent or below
  \<open>BlockChainVersion\<close> makes \<open>New\<close>, once it has got to the check, write
  \<open>BlockChainVersion\<close> as the stored version, once, and go on to its next calls.
\<close>

theorem version_check_refuses_newer_database:
  assumes "\<not> SkipBcVersionCheck config"
  shows "(\<forall>v. read_database_version e = Some v \<and> BlockChainVersion e < v \<longrightarrow>
            isl (result_of (New e config))
          \<and> EvMarkStartup \<notin> set (trace_of (New e config))
          \<and> (\<forall>cc. EvNewBlockChain cc \<notin> set (trace_of (New e config)))
          \<and> (\<forall>w. EvWriteDatabaseVersion w \<notin> set (trace_of (New e config)))
          \<and> (reaches_version_check e config \<longrightarrow>
               result_of (New e config) = Inl (DatabaseVersionTooNew v (BlockChainVersion e))))
    \<and> ((read_database_version e = None
         \<or> (\<exists>v. read_database_version e = Some v \<and> v < BlockChainVersion e))
        \<and> reaches_version_check e config \<longrightarrow>
          count_list (trace_of (New e config)) (EvWriteDatabaseVersion (BlockChainVersion e)) = 1
        \<and> (\<exists>x \<in> set (trace_of (New e config)). 8 < phase x))"
proof (intro conjI allI impI; (elim conjE)?)
  let ?c = "sanitize_caches (sanitize_gas_price e config)"
  have skip: "\<not> SkipBcVersionCheck ?c"
    using assms by (simp add: sanitize_caches_keeps sanitize_gas_price_keeps)
  {
    fix v
    assume v: "read_database_version e = Some v" "BlockChainVersion e < v"
    have stop: "isl (result_of (New e config))
        \<and> (\<forall>x \<in> set (trace_of (New e config)). phase x < 8)
        \<and> (reaches_version_check e config \<longrightarrow>
             result_of (New e config) = Inl (DatabaseVersionTooNew v (BlockChainVersion e)))"
    proof (cases "resolved_scheme e config")
      case None
      then show ?thesis
        using New_unresolved [of e config] by (auto simp: reaches_version_check_def)
    next
      case (Some s)
      let ?t = "[EvOpenDatabaseWithFreezer, EvParseStateScheme (StateScheme config)]"
      show ?thesis
      proof (cases "isl (load_chain_config e) \<or> create_consensus_engine e \<noteq> None")
        case True
        then have "\<not> reaches_version_check e config"
          by (auto simp: reaches_version_check_def)
        moreover have "\<forall>x \<in> set ?t. phase x < 8"
          by simp
        ultimately show ?thesis
          using with_scheme_stops [OF True, of ?c s ?t] New_resolved [OF Some]
          by fastforce
      next
        case False
        then obtain n where "load_chain_config e = Inr n" "create_consensus_engine e = None"
          by (cases "load_chain_config e") auto
        then show ?thesis
          using New_resolved [OF Some] version_check_too_new [OF skip v]
          by (auto simp: with_scheme_continue result_of_def trace_of_def)
      qed
    qed
    from stop show "isl (result_of (New e config))" by simp
    from stop show "EvMarkStartup \<notin> set (trace_of (New e config))" by fastforce
    from stop show "EvNewBlockChain cc \<notin> set (trace_of (New e config))" for cc by fastforce
    from stop show "EvWriteDatabaseVersion w \<notin> set (trace_of (New e config))" for w by fastforce
    from stop show "result_of (New e config) = Inl (DatabaseVersionTooNew v (BlockChainVersion e))"
      if "reaches_version_check e config"
      using that by simp
  }
  assume low: "read_database_version e = None
      \<or> (\<exists>v. read_database_version e = Some v \<and> v < BlockChainVersion e)"
    and reach: "reaches_version_check e config"
  from reach obtain s n where s: "resolved_scheme e config = Some s"
    and n: "load_chain_config e = Inr n" and eng: "create_consensus_engine e = None"
    by (cases "load_chain_config e") (auto simp: reaches_version_check_def)
  let ?n = "if NetworkId ?c = 0 then n else NetworkId ?c"
  let ?t = "(if s = HashScheme
             then [EvOpenDatabaseWithFreezer, EvParseStateScheme (StateScheme config)] @ [EvRecoverPruning]
             else [EvOpenDatabaseWithFreezer, EvParseStateScheme (StateScheme config)])
            @ [EvLoadChainConfig, EvCreateConsensusEngine, EvNewBloomIndexer, EvNewShutdownTracker]
            @ [EvReadDatabaseVersion, EvWriteDatabaseVersion (BlockChainVersion e)]"
  have "New e config = New_configs e ?c s ?n ?t"
    using New_resolved [OF s] with_scheme_continue [OF n eng] version_check_upgrade [OF skip low]
    by simp
  then have tr: "trace_of (New e config) = ?t @ trace_of (New_configs e ?c s ?n [])"
    using New_configs_append [of e ?c s ?n ?t] by simp
  have "count_list (trace_of (New_configs e ?c s ?n [])) (EvWriteDatabaseVersion (BlockChainVersion e)) = 0"
    using New_configs_events [of "EvWriteDatabaseVersion (BlockChainVersion e)" e ?c s ?n]
    by (auto simp: count_list_0_iff)
  with tr show "count_list (trace_of (New e config)) (EvWriteDatabaseVersion (BlockChainVersion e)) = 1"
    by simp
  from tr show "\<exists>x \<in> set (trace_of (New e config)). 8 < phase x"
    using New_configs_proceeds [of e ?c s ?n] by auto
qed

theorem version_check_refuses_newer_database_witness:
  "result_of (New (example_env PathScheme [] (Some 10)) example_config)
     = Inl (DatabaseVersionTooNew 10 9)
   \<and> EvMarkStartup \<notin> set (trace_of (New (example_env PathScheme [] (Some 10)) example_config))
   \<and> count_list (trace_of (New (example_env PathScheme [] (Some 8)) example_config))
        (EvWriteDatabaseVersion 9) = 1
   \<and> count_list (trace_of (New (example_env PathScheme [] None) example_config))
        (EvWriteDatabaseVersion 9) = 1"
proof -
  have skip: "\<not> SkipBcVersionCheck example_config"
    by (simp add: example_config_def)
  have reach: "reaches_version_check (example_env PathScheme [] v) example_config" for v
    by (simp add: reaches_version_check_def resolved_scheme_def example_env_def
        ParseStateScheme_def StateScheme_sanitized example_config_def)
  have env: "read_database_version (example_env PathScheme [] v) = v"
    "BlockChainVersion (example_env PathScheme [] v) = 9" for v
    by (simp_all add: example_env_def)
  show ?thesis
    using version_check_refuses_newer_database [OF skip, of "example_env PathScheme [] (Some 10)"]
      version_check_refuses_newer_database [OF skip, of "example_env PathScheme [] (Some 8)"]
      version_check_refuses_newer_database [OF skip, of "example_env PathScheme [] None"]
      reach env
    by simp
qed


section \<open>Selection of the state scheme\<close>

lemma ParseStateScheme_on_stored:
  assumes "stored \<noteq> []"
  shows "ParseStateScheme dflt stored provided
    = (if provided = [] \<or> provided = stored \<and> (stored = HashScheme \<or> stored = PathScheme)
       then Inr stored
       else Inl (ConfigError (if provided \<noteq> HashScheme \<and> provided \<noteq> PathScheme
                              then ''invalid state scheme'' else ''incompatible state scheme'')))"
  using assms by (auto simp: ParseStateScheme_def)

lemma New_parse_fails:
  assumes "sync_mode_is_valid e" and "open_database e = None"
    and "parse_state_scheme e (StateScheme config) = Inl err"
  shows "New e config
    = (Inl err, sanitize_caches (sanitize_gas_price e config),
       [EvOpenDatabaseWithFreezer, EvParseStateScheme (StateScheme config)])"
  using assms by (simp add: New_def Let_def StateScheme_sanitized)

lemma resolved_scheme_iff:
  "resolved_scheme e config = Some s \<longleftrightarrow>
     sync_mode_is_valid e \<and> open_database e = None
     \<and> parse_state_scheme e (StateScheme config) = Inr s"
  by (auto simp: resolved_scheme_def StateScheme_sanitized split: sum.splits)

lemma New_configs_calls_blockchain:
  assumes "VMTrace c = []
      \<or> new_tracer e (VMTrace c) (if VMTraceJsonConfig c \<noteq> [] then VMTraceJsonConfig c else ''{}'')
          = None"
  shows "EvNewBlockChain (make_cache_config c s) \<in> set (trace_of (New_configs e c s n t))"
proof -
  have "EvNewBlockChain (make_cache_config c s)
      \<in> set (trace_of (New_chain e c (make_cache_config c s) n u))" for u
    using New_chain_append [of e c "make_cache_config c s" n u]
      New_chain_calls_blockchain [of "make_cache_config c s" e c n]
    by simp
  then show ?thesis
    using assms by (auto simp: New_configs_def Let_def)
qed

lemma version_check_passes:
  assumes "SkipBcVersionCheck c
      \<or> (\<forall>v. read_database_version e = Some v \<longrightarrow> v \<le> BlockChainVersion e)"
  shows "\<exists>u. New_version_check e c s n t = New_configs e c s n u"
  using assms by (auto simp: New_version_check_def Let_def split: option.splits)

lemma New_calls_blockchain:
  assumes "sync_mode_is_valid e" and "open_database e = None"
    and "parse_state_scheme e (StateScheme config) = Inr s"
    and "load_chain_config e = Inr n" and "create_consensus_engine e = None"
    and "SkipBcVersionCheck config
      \<or> (\<forall>v. read_database_version e = Some v \<longrightarrow> v \<le> BlockChainVersion e)"
    and "VMTrace config = []
      \<or> new_tracer e (VMTrace config)
           (if VMTraceJsonConfig config \<noteq> [] then VMTraceJsonConfig config else ''{}'') = None"
  shows "EvNewBlockChain (make_cache_config (sanitize_caches (sanitize_gas_price e config)) s)
    \<in> set (trace_of (New e config))"
proof -
  let ?c = "sanitize_caches (sanitize_gas_price e config)"
  have keep: "SkipBcVersionCheck ?c = SkipBcVersionCheck config" "VMTrace ?c = VMTrace config"
    "VMTraceJsonConfig ?c = VMTraceJsonConfig config"
    by (simp_all add: sanitize_caches_def sanitize_gas_price_def Let_def split: option.splits)
  have res: "resolved_scheme e config = Some s"
    using assms(1-3) by (simp add: resolved_scheme_iff)
  have tracer: "VMTrace ?c = []
      \<or> new_tracer e (VMTrace ?c) (if VMTraceJsonConfig ?c \<noteq> [] then VMTraceJsonConfig ?c else ''{}'')
          = None"
    using assms(7) by (simp only: keep)
  have version: "SkipBcVersionCheck ?c
      \<or> (\<forall>v. read_database_version e = Some v \<longrightarrow> v \<le> BlockChainVersion e)"
    using assms(6) by (simp only: keep)
  have nb: "EvNewBlockChain (make_cache_config ?c s) \<in> set (trace_of (New_configs e ?c s m u))"
    for m u
    using tracer by (rule New_configs_calls_blockchain)
  obtain m u where "New e config = New_configs e ?c s m u"
    using New_resolved [OF res] with_scheme_continue [OF assms(4,5)]
      version_check_passes [OF version]
    by metis
  then show ?thesis
    using nb [of m u] by simp
qed

text \<open>
  C2: \<open>New\<close> calls \<open>ParseStateScheme\<close> exactly once whenever it has opened the
  database (and not at all otherwise), on the requested scheme, and before any call that
  builds the blockchain. When the call fails, \<open>New\<close> returns that error there and then;
  when it answers a scheme and the later steps up to the blockchain succeed, the blockchain
  is built with that scheme, and it is never built with another one. On a store that
  already holds a scheme, the blockchain is only ever built with the stored scheme, and a
  requested scheme that differs from the stored one makes \<open>New\<close> return the configuration
  error of \<open>ParseStateScheme\<close>, after the two calls that open the database and parse the
  scheme and nothing else. With the hash scheme or the path scheme as the default and on
  the store, the blockchain is built with one of the two.
\<close>

theorem scheme_resolved_once_conflict_rejected:
  "filter is_parse_state_scheme (trace_of (New e config))
     = (if sync_mode_is_valid e \<and> open_database e = None
        then [EvParseStateScheme (StateScheme config)] else [])
   \<and> preceded_by is_parse_state_scheme is_new_blockchain (trace_of (New e config))
   \<and> (\<forall>cc. EvNewBlockChain cc \<in> set (trace_of (New e config)) \<longrightarrow>
         parse_state_scheme e (StateScheme config) = Inr (CacheStateScheme cc))
   \<and> (\<forall>err. sync_mode_is_valid e \<and> open_database e = None
         \<and> parse_state_scheme e (StateScheme config) = Inl err \<longrightarrow>
         New e config
           = (Inl err, sanitize_caches (sanitize_gas_price e config),
              [EvOpenDatabaseWithFreezer, EvParseStateScheme (StateScheme config)]))
   \<and> (\<forall>s n. sync_mode_is_valid e \<and> open_database e = None
         \<and> parse_state_scheme e (StateScheme config) = Inr s
         \<and> load_chain_config e = Inr n \<and> create_consensus_engine e = None
         \<and> (SkipBcVersionCheck config
            \<or> (\<forall>v. read_database_version e = Some v \<longrightarrow> v \<le> BlockChainVersion e))
         \<and> (VMTrace config = []
            \<or> new_tracer e (VMTrace config)
                 (if VMTraceJsonConfig config \<noteq> [] then VMTraceJsonConfig config else ''{}'')
                = None) \<longrightarrow>
         EvNewBlockChain (make_cache_config (sanitize_caches (sanitize_gas_price e config)) s)
           \<in> set (trace_of (New e config)))
   \<and> (parse_state_scheme e = ParseStateScheme dflt stored \<and> stored \<noteq> [] \<longrightarrow>
         (\<forall>cc. EvNewBlockChain cc \<in> set (trace_of (New e config)) \<longrightarrow>
            CacheStateScheme cc = stored)
       \<and> (StateScheme config \<noteq> [] \<and> StateScheme config \<noteq> stored \<longrightarrow>
            isl (result_of (New e config))
          \<and> (\<forall>cc. EvNewBlockChain cc \<notin> set (trace_of (New e config)))
          \<and> EvMarkStartup \<notin> set (trace_of (New e config))
          \<and> (sync_mode_is_valid e \<and> open_database e = None \<longrightarrow>
               (\<exists>msg. New e config
                  = (Inl (ConfigError msg), sanitize_caches (sanitize_gas_price e config),
                     [EvOpenDatabaseWithFreezer, EvParseStateScheme (StateScheme config)])))))
   \<and> (parse_state_scheme e = ParseStateScheme dflt stored
        \<and> (dflt = HashScheme \<or> dflt = PathScheme)
        \<and> (stored = [] \<or> stored = HashScheme \<or> stored = PathScheme) \<longrightarrow>
         (\<forall>cc. EvNewBlockChain cc \<in> set (trace_of (New e config)) \<longrightarrow>
            CacheStateScheme cc = HashScheme \<or> CacheStateScheme cc = PathScheme))"
proof -
  let ?c = "sanitize_caches (sanitize_gas_price e config)"
  let ?tr = "trace_of (New e config)"
  have once: "filter is_parse_state_scheme ?tr
     = (if sync_mode_is_valid e \<and> open_database e = None
        then [EvParseStateScheme (StateScheme config)] else [])"
  proof (cases "resolved_scheme e config")
    case None
    show ?thesis
    proof (cases "sync_mode_is_valid e \<and> open_database e = None")
      case True
      with None obtain err where "parse_state_scheme e (StateScheme config) = Inl err"
        by (cases "parse_state_scheme e (StateScheme config)")
           (auto simp: resolved_scheme_def StateScheme_sanitized)
      with True show ?thesis
        by (simp add: New_parse_fails trace_of_def)
    next
      case False
      then show ?thesis
        by (auto simp: New_def Let_def trace_of_def split: option.splits)
    qed
  next
    case (Some s)
    have "\<not> is_parse_state_scheme x" if "x \<in> set (trace_of (New_with_scheme e ?c s []))" for x
      using with_scheme_events [OF that] by (auto simp: is_parse_state_scheme_phase)
    then have "filter is_parse_state_scheme (trace_of (New_with_scheme e ?c s [])) = []"
      by (simp add: filter_empty_conv)
    with Some show ?thesis
      by (simp add: New_resolved_trace [OF Some] resolved_scheme_iff)
  qed
  have before: "preceded_by is_parse_state_scheme is_new_blockchain ?tr"
  proof (cases "resolved_scheme e config")
    case None
    then show ?thesis
      using New_unresolved [of e config] by auto
  next
    case (Some s)
    then show ?thesis
      by (simp add: New_resolved_trace [OF Some])
  qed
  have built: "parse_state_scheme e (StateScheme config) = Inr (CacheStateScheme cc)"
    if "EvNewBlockChain cc \<in> set ?tr" for cc
    using New_blockchain_event [OF that] by (auto simp: make_cache_config_def resolved_scheme_iff)
  have fails: "New e config
      = (Inl err, ?c, [EvOpenDatabaseWithFreezer, EvParseStateScheme (StateScheme config)])"
    if "sync_mode_is_valid e \<and> open_database e = None
      \<and> parse_state_scheme e (StateScheme config) = Inl err" for err
    using that by (simp add: New_parse_fails)
  have builds: "EvNewBlockChain (make_cache_config ?c s) \<in> set ?tr"
    if "sync_mode_is_valid e \<and> open_database e = None
         \<and> parse_state_scheme e (StateScheme config) = Inr s
         \<and> load_chain_config e = Inr n \<and> create_consensus_engine e = None
         \<and> (SkipBcVersionCheck config
            \<or> (\<forall>v. read_database_version e = Some v \<longrightarrow> v \<le> BlockChainVersion e))
         \<and> (VMTrace config = []
            \<or> new_tracer e (VMTrace config)
                 (if VMTraceJsonConfig config \<noteq> [] then VMTraceJsonConfig config else ''{}'')
                = None)" for s n
    using that by (intro New_calls_blockchain [where n = n]) simp_all
  have stored_only: "CacheStateScheme cc = stored"
    if "parse_state_scheme e = ParseStateScheme dflt stored" "stored \<noteq> []"
      "EvNewBlockChain cc \<in> set ?tr" for cc
    using built [OF that(3)] that(1,2)
    by (auto simp: ParseStateScheme_on_stored split: if_splits)
  have conflict: "isl (result_of (New e config))
      \<and> (\<forall>cc. EvNewBlockChain cc \<notin> set ?tr)
      \<and> EvMarkStartup \<notin> set ?tr
      \<and> (sync_mode_is_valid e \<and> open_database e = None \<longrightarrow>
           (\<exists>msg. New e config
              = (Inl (ConfigError msg), ?c,
                 [EvOpenDatabaseWithFreezer, EvParseStateScheme (StateScheme config)])))"
    if parse: "parse_state_scheme e = ParseStateScheme dflt stored" and stored: "stored \<noteq> []"
      and req: "StateScheme config \<noteq> []" "StateScheme config \<noteq> stored"
  proof -
    from stored req obtain msg where
      msg: "ParseStateScheme dflt stored (StateScheme config) = Inl (ConfigError msg)"
      by (simp add: ParseStateScheme_on_stored)
    with parse have none: "resolved_scheme e config = None"
      by (simp add: resolved_scheme_def StateScheme_sanitized)
    have "New e config
        = (Inl (ConfigError msg), ?c,
           [EvOpenDatabaseWithFreezer, EvParseStateScheme (StateScheme config)])"
      if "sync_mode_is_valid e" "open_database e = None"
      using that parse msg by (simp add: New_parse_fails)
    then show ?thesis
      using New_unresolved [OF none] by auto
  qed
  have one_of_two: "CacheStateScheme cc = HashScheme \<or> CacheStateScheme cc = PathScheme"
    if "parse_state_scheme e = ParseStateScheme dflt stored"
      "dflt = HashScheme \<or> dflt = PathScheme"
      "stored = [] \<or> stored = HashScheme \<or> stored = PathScheme"
      "EvNewBlockChain cc \<in> set ?tr" for cc
    using built [OF that(4)] that(1-3)
    by (auto simp: ParseStateScheme_def split: if_splits)
  show ?thesis
    using once before built fails builds stored_only conflict one_of_two
    by (intro conjI allI impI) blast+
qed

theorem scheme_resolved_once_conflict_rejected_witness:
  "New (example_env PathScheme HashScheme None) (example_config\<lparr>StateScheme := PathScheme\<rparr>)
     = (Inl (ConfigError ''incompatible state scheme''),
        example_config\<lparr>StateScheme := PathScheme\<rparr>,
        [EvOpenDatabaseWithFreezer, EvParseStateScheme PathScheme])
   \<and> filter is_parse_state_scheme
        (trace_of (New (example_env PathScheme HashScheme None)
           (example_config\<lparr>StateScheme := HashScheme\<rparr>)))
       = [EvParseStateScheme HashScheme]
   \<and> EvNewBlockChain
        \<lparr>TrieCleanLimit = 154, TrieCleanNoPrefetch = False, TrieDirtyLimit = 256,
         TrieDirtyDisabled = False, TrieTimeLimit = 3600000000000, SnapshotLimit = 102,
         CachePreimages = False, CacheStateHistory = 90000, CacheStateScheme = HashScheme\<rparr>
       \<in> set (trace_of (New (example_env PathScheme HashScheme None)
                 (example_config\<lparr>StateScheme := HashScheme\<rparr>)))"
proof -
  let ?e = "example_env PathScheme HashScheme None"
  let ?a = "example_config\<lparr>StateScheme := PathScheme\<rparr>"
  let ?b = "example_config\<lparr>StateScheme := HashScheme\<rparr>"
  have env: "sync_mode_is_valid ?e" "open_database ?e = None"
    "parse_state_scheme ?e = ParseStateScheme PathScheme HashScheme"
    "load_chain_config ?e = Inr 1" "create_consensus_engine ?e = None"
    "read_database_version ?e = None"
    by (simp_all add: example_env_def)
  have parse: "ParseStateScheme PathScheme HashScheme PathScheme
        = Inl (ConfigError ''incompatible state scheme'')"
    "ParseStateScheme PathScheme HashScheme HashScheme = Inr HashScheme"
    by (simp_all add: ParseStateScheme_def HashScheme_def PathScheme_def)
  have cfg: "StateScheme ?a = PathScheme" "StateScheme ?b = HashScheme" "VMTrace ?b = []"
    "sanitize_caches (sanitize_gas_price ?e ?a) = ?a"
    "make_cache_config (sanitize_caches (sanitize_gas_price ?e ?b)) HashScheme
       = \<lparr>TrieCleanLimit = 154, TrieCleanNoPrefetch = False, TrieDirtyLimit = 256,
          TrieDirtyDisabled = False, TrieTimeLimit = 3600000000000, SnapshotLimit = 102,
          CachePreimages = False, CacheStateHistory = 90000, CacheStateScheme = HashScheme\<rparr>"
    by (simp_all add: example_config_def sanitize_caches_def sanitize_gas_price_def
        make_cache_config_def)
  show ?thesis
    using scheme_resolved_once_conflict_rejected [of ?e ?a PathScheme HashScheme]
      scheme_resolved_once_conflict_rejected [of ?e ?b PathScheme HashScheme]
      env parse cfg
    by simp
qed


section \<open>Shutdown order\<close>

text \<open>
  C4: however far \<open>Stop\<close> gets (it may be cut short by a panic), the chain database is
  closed only after the blockchain has been stopped and after the shutdown tracker has
  been stopped, and the shutdown tracker is stopped only after the blockchain; when
  \<open>Stop\<close> returns, each of the three calls has been made once, in that order.
\<close>

theorem Stop_closes_database_last:
  "(\<forall>n closed.
      (ChainDbClose \<in> set (take n (snd (snd (Stop closed)))) \<longrightarrow>
         ShutdownTrackerStop \<in> set (take n (snd (snd (Stop closed))))
       \<and> BlockchainStop \<in> set (take n (snd (snd (Stop closed)))))
    \<and> (ShutdownTrackerStop \<in> set (take n (snd (snd (Stop closed)))) \<longrightarrow>
         BlockchainStop \<in> set (take n (snd (snd (Stop closed))))))
   \<and> (\<forall>closed. fst (Stop closed) = Returned \<longrightarrow>
        filter (\<lambda>x. x \<in> {BlockchainStop, ShutdownTrackerStop, ChainDbClose})
          (snd (snd (Stop closed)))
        = [BlockchainStop, ShutdownTrackerStop, ChainDbClose])"
proof -
  have returned: "filter (\<lambda>x. x \<in> {BlockchainStop, ShutdownTrackerStop, ChainDbClose})
          (snd (snd (Stop closed)))
        = [BlockchainStop, ShutdownTrackerStop, ChainDbClose]"
    if "fst (Stop closed) = Returned" for closed
    using that by (simp add: Stop_def Let_def split: if_splits)
  have panicked: "ChainDbClose \<notin> set (take n (snd (snd (Stop True))))
      \<and> ShutdownTrackerStop \<notin> set (take n (snd (snd (Stop True))))" for n
    by (auto simp: Stop_def Let_def dest!: in_set_takeD)
  have a: "take n [a1, a2, a3, a4, a5, a6, a7, a8, a9, a10 :: stop_event]
      = (if n = 0 then [] else if n = 1 then [a1] else if n = 2 then [a1, a2]
         else if n = 3 then [a1, a2, a3] else if n = 4 then [a1, a2, a3, a4]
         else if n = 5 then [a1, a2, a3, a4, a5] else if n = 6 then [a1, a2, a3, a4, a5, a6]
         else if n = 7 then [a1, a2, a3, a4, a5, a6, a7]
         else if n = 8 then [a1, a2, a3, a4, a5, a6, a7, a8]
         else if n = 9 then [a1, a2, a3, a4, a5, a6, a7, a8, a9]
         else [a1, a2, a3, a4, a5, a6, a7, a8, a9, a10])" for n a1 a2 a3 a4 a5 a6 a7 a8 a9 a10
    by (auto simp: take_Cons' )
  have ordered: "(ChainDbClose \<in> set (take n (snd (snd (Stop False)))) \<longrightarrow>
         ShutdownTrackerStop \<in> set (take n (snd (snd (Stop False))))
       \<and> BlockchainStop \<in> set (take n (snd (snd (Stop False)))))
    \<and> (ShutdownTrackerStop \<in> set (take n (snd (snd (Stop False)))) \<longrightarrow>
         BlockchainStop \<in> set (take n (snd (snd (Stop False)))))" for n
    by (simp add: Stop_def Let_def a)
  show ?thesis
    using returned panicked ordered by (metis (full_types))
qed

theorem Stop_closes_database_last_witness:
  "Stop False = (Returned, True,
      [DiscmixClose, HandlerStop, BloomIndexerClose, CloseBloomHandler, TxPoolClose,
       BlockchainStop, EngineClose, ShutdownTrackerStop, ChainDbClose, EventMuxStop])
   \<and> ChainDbClose \<in> set (take 9 (snd (snd (Stop False))))
   \<and> ShutdownTrackerStop \<in> set (take 9 (snd (snd (Stop False))))
   \<and> BlockchainStop \<in> set (take 9 (snd (snd (Stop False))))
   \<and> ChainDbClose \<notin> set (take 8 (snd (snd (Stop False))))"
proof -
  have c: "ChainDbClose \<in> set (take 9 (snd (snd (Stop False))))"
    by (simp add: Stop_def Let_def)
  have r: "fst (Stop False) = Returned"
    by (simp add: Stop_def Let_def)
  show ?thesis
    using c r Stop_closes_database_last by (simp add: Stop_def Let_def)
qed


section \<open>camel\<close>

lemma Split_not_Nil: "Split s sep \<noteq> []"
  by (induction s) (auto split: list.splits)

lemma camel_loop_maps:
  assumes "\<forall>j. i \<le> j \<and> j < length pieces \<longrightarrow> pieces ! j \<noteq> []"
  shows "camel_loop i pieces = Inr (take i pieces @ map upper_first_byte (drop i pieces))"
  using assms
proof (induction i pieces rule: camel_loop.induct)
  case (1 i pieces)
  show ?case
  proof (cases "i < length pieces")
    case False
    then show ?thesis by simp
  next
    case True
    with 1(2) obtain b rest where p: "pieces ! i = b # rest"
      by (cases "pieces ! i") auto
    let ?q = "string_of_rune (ToUpper (of_char b)) @ rest"
    have next_ok: "\<forall>j. Suc i \<le> j \<and> j < length (pieces[i := ?q]) \<longrightarrow> pieces[i := ?q] ! j \<noteq> []"
      using 1(2) by simp
    have "camel_loop i pieces = camel_loop (Suc i) (pieces[i := ?q])"
      using True p by simp
    also have "\<dots> = Inr (take (Suc i) (pieces[i := ?q])
        @ map upper_first_byte (drop (Suc i) (pieces[i := ?q])))"
      using "1.IH" [OF True p next_ok] .
    also have "take (Suc i) (pieces[i := ?q]) = take i pieces @ [?q]"
      using True by (simp add: take_Suc_conv_app_nth)
    also have "drop (Suc i) (pieces[i := ?q]) = drop (Suc i) pieces"
      by simp
    also have "(take i pieces @ [?q]) @ map upper_first_byte (drop (Suc i) pieces)
        = take i pieces @ map upper_first_byte (drop i pieces)"
      using True p by (simp add: Cons_nth_drop_Suc [symmetric] upper_first_byte_def)
    finally show ?thesis .
  qed
qed

lemma camel_upper_first_byte:
  assumes "no_empty_piece_after_first str"
  shows "camel str = Inr (concat (hd (Split str (CHR ''_''))
           # map upper_first_byte (tl (Split str (CHR ''_'')))))"
proof -
  obtain p0 ps where split: "Split str (CHR ''_'') = p0 # ps"
    using Split_not_Nil [of str "CHR ''_''"] by (cases "Split str (CHR ''_'')") auto
  have "\<forall>j. 1 \<le> j \<and> j < length (p0 # ps) \<longrightarrow> (p0 # ps) ! j \<noteq> []"
    using assms split by (auto simp: no_empty_piece_after_first_def nth_Cons split: nat.splits)
  then have "camel_loop 1 (p0 # ps) = Inr (take 1 (p0 # ps) @ map upper_first_byte (drop 1 (p0 # ps)))"
    by (rule camel_loop_maps)
  then show ?thesis
    by (simp add: camel_def split)
qed

lemma upper_first_rune_ascii:
  assumes "starts_ascii p"
  shows "upper_first_rune p = Some (upper_first_byte p)"
proof -
  from assms obtain b rest where p: "p = b # rest" and b: "of_char b < (0x80 :: nat)"
    by (cases p) (auto simp: starts_ascii_def)
  then show ?thesis
    by (simp add: upper_first_rune_def first_rune_def upper_first_byte_def)
qed

lemma those_strings_ascii:
  assumes "list_all starts_ascii ps"
  shows "those_strings (map upper_first_rune ps) = Some (map upper_first_byte ps)"
  using assms by (induction ps) (simp_all add: upper_first_rune_ascii)

text \<open>
  C10, as the claim states it, fails for a piece that does not start with an ASCII byte:
  \<open>camel\<close> upper-cases the first byte read as a code point, not the first rune. In
  \<open>a_\<close> followed by the two bytes of U+00E9 no piece after the first is empty; the first
  rune of the second piece upper-cased is U+00C9 (bytes C3 89), but \<open>camel\<close> returns the
  bytes C3 83 A9.
\<close>

theorem camel_first_rune_counterexample:
  "no_empty_piece_after_first [CHR ''a'', CHR ''_'', CHR 0xC3, CHR 0xA9]
   \<and> camel_by_rune [CHR ''a'', CHR ''_'', CHR 0xC3, CHR 0xA9] = Some [CHR ''a'', CHR 0xC3, CHR 0x89]
   \<and> camel [CHR ''a'', CHR ''_'', CHR 0xC3, CHR 0xA9] = Inr [CHR ''a'', CHR 0xC3, CHR 0x83, CHR 0xA9]"
  by code_simp

text \<open>
  C10, amended: for every input string in which no underscore-separated piece after the
  first is empty, \<open>camel\<close> terminates and returns without an index out of range; and
  when, in addition, every piece after the first starts with an ASCII byte, what it
  returns is the pieces joined, each piece after the first with its first rune upper-cased.
\<close>

theorem camel_upper_cases_ascii_pieces:
  assumes "no_empty_piece_after_first str"
  shows "(\<exists>r. camel str = Inr r)
    \<and> (list_all starts_ascii (tl (Split str (CHR ''_''))) \<longrightarrow>
         (\<exists>r. camel str = Inr r \<and> camel_by_rune str = Some r))"
proof -
  obtain p0 ps where split: "Split str (CHR ''_'') = p0 # ps"
    using Split_not_Nil [of str "CHR ''_''"] by (cases "Split str (CHR ''_'')") auto
  have c: "camel str = Inr (concat (p0 # map upper_first_byte ps))"
    using camel_upper_first_byte [OF assms] split by simp
  have "camel_by_rune str = Some (concat (p0 # map upper_first_byte ps))"
    if "list_all starts_ascii ps"
    using those_strings_ascii [OF that] split by (simp add: camel_by_rune_def)
  with c split show ?thesis by simp
qed

theorem camel_upper_cases_ascii_pieces_witness:
  "no_empty_piece_after_first ''call_tracer_legacy''
   \<and> list_all starts_ascii (tl (Split ''call_tracer_legacy'' (CHR ''_'')))
   \<and> camel ''call_tracer_legacy'' = Inr ''callTracerLegacy''
   \<and> camel_by_rune ''call_tracer_legacy'' = Some ''callTracerLegacy''"
proof -
  have pre: "no_empty_piece_after_first ''call_tracer_legacy''"
    by (simp add: no_empty_piece_after_first_def)
  have ascii: "list_all starts_ascii (tl (Split ''call_tracer_legacy'' (CHR ''_'')))"
    by (simp add: starts_ascii_def)
  have spec: "camel_by_rune ''call_tracer_legacy'' = Some ''callTracerLegacy''"
    by code_simp
  show ?thesis
    using pre ascii spec camel_upper_cases_ascii_pieces [OF pre] by auto
qed


section \<open>Readers of the layer tree\<close>























end
